theory Spec2Isabelle
  imports Complex_Main
begin

section \<open>Blocking futures over a callback connection (ib/opt/future.py)\<close>

text \<open>
  The module has three classes: \<^verbatim>\<open>Future\<close>, which gathers the messages a connection
  delivers to its \<^verbatim>\<open>notify\<close> callback and offers blocking getters; \<^verbatim>\<open>FutureFactory\<close>,
  which builds a future, registers it and issues the request; and the exception
  \<^verbatim>\<open>TimeoutException\<close>.

  The embedding passes state explicitly. A method that Python runs on \<^verbatim>\<open>self\<close> takes the
  future (a record) and returns the updated one; a method that talks to the connection
  takes the connection's state as well and returns it. Exceptions are values of the
  type \<open>exn\<close>, on the left of a sum.
\<close>

subsection \<open>Exceptions\<close>

text \<open>
  \<open>AssertionError\<close> is what the \<^verbatim>\<open>assert\<close> of \<^verbatim>\<open>Future.__init__\<close> raises (the interpreter is
  taken in its default mode, where assertions run); \<open>TimeoutException\<close> is the class of the
  module; \<open>IndexError\<close> is what \<^verbatim>\<open>x[0]\<close> and \<^verbatim>\<open>x[-1]\<close> raise on an empty list;
  \<open>TypeError\<close> is what a \<^verbatim>\<open>for\<close> statement raises on an object that is not iterable.
  \<open>Raised s\<close> stands for any other exception, as a request function may raise one.
\<close>

datatype exn = AssertionError | TimeoutException | IndexError | TypeError | Raised string

subsection \<open>The connection\<close>

text \<open>
  A callback handed to the connection is the bound method \<^verbatim>\<open>f.notify\<close>. Two bound methods
  are equal in Python when they are the same function on the same object, so a callback
  is identified by the identity of its future.
\<close>

type_synonym callback = nat

text \<open>
  An event-type identifier is a key for the connection: a string, which Python compares
  by its characters whatever its type (\<^verbatim>\<open>str\<close>, \<^verbatim>\<open>unicode\<close>, a subclass of \<^verbatim>\<open>str\<close>), or any
  other object (a number, \<^verbatim>\<open>None\<close>, a message class), identified here by a number.
\<close>

datatype ident = Name string | Object nat

type_synonym conn = "(callback \<times> ident) list"

text \<open>
  Modelled from the spec: the class of the connection object (\<^verbatim>\<open>ib.opt.connection\<close>) is not
  part of this module. The spec describes what the future uses of it:
  \<^verbatim>\<open>register(callback, eventTypeIdentifier)\<close> "associates a notification callback with a
  specific event-type identifier; may be called multiple times for the same callback with
  different identifiers". The state of the connection is the list of the associations
  made and not removed since, one for each call of \<^verbatim>\<open>register\<close>, in the order of the calls.
\<close>

definition register :: "callback \<Rightarrow> ident \<Rightarrow> conn \<Rightarrow> conn" where
  "register cb t con = con @ [(cb, t)]"

text \<open>
  Modelled from the spec: \<^verbatim>\<open>unregisterAll(callback)\<close> "removes every association for the
  given callback across all event-type identifiers; idempotent".
\<close>

definition unregisterAll :: "callback \<Rightarrow> conn \<Rightarrow> conn" where
  "unregisterAll cb con = filter (\<lambda>p. fst p \<noteq> cb) con"

subsection \<open>The future\<close>

text \<open>
  The argument \<^verbatim>\<open>msgTypes\<close> of the factory, as the \<^verbatim>\<open>for\<close> statement of \<^verbatim>\<open>create_filtered\<close>
  tells its values apart. \<open>Str s\<close> is a string whose type is exactly \<^verbatim>\<open>str\<close>. \<open>StrLike s\<close> is
  a string of another type (a \<^verbatim>\<open>unicode\<close>, an instance of a subclass of \<^verbatim>\<open>str\<close>): iterating
  it yields its characters. \<open>NonIterable n\<close> is an object that is not iterable (a number,
  \<^verbatim>\<open>None\<close>, a message class). \<open>Seq ts\<close> is any other iterable, with the identifiers \<open>ts\<close> it
  yields, in order. The first three are single identifiers.
\<close>

datatype msg_types = Str string | StrLike string | NonIterable nat | Seq "ident list"

text \<open>
  The identifiers that the loop
  \<^verbatim>\<open>for t in msgTypes if type(msgTypes) != str else [msgTypes]\<close> runs through, or the
  exception that starting it raises.
\<close>

fun loop_items :: "msg_types \<Rightarrow> exn + ident list" where
  "loop_items (Str s) = Inr [Name s]"
| "loop_items (StrLike s) = Inr (map (\<lambda>c. Name [c]) s)"
| "loop_items (NonIterable n) = Inl TypeError"
| "loop_items (Seq ts) = Inr ts"

text \<open>
  The attributes of a \<^verbatim>\<open>Future\<close> object. \<open>self_id\<close> is the identity of the object (what
  makes \<^verbatim>\<open>f.notify\<close> one callback). The attribute \<^verbatim>\<open>con\<close> is a reference to the connection;
  the connection's state is passed beside the future instead. \<open>filter'\<close> is the method
  \<^verbatim>\<open>filter\<close>, an attribute because the factory replaces it per instance. \<open>name'\<close> stands for
  the attribute \<^verbatim>\<open>name\<close>: \<open>None\<close> is the method of the class, which raises
  \<^verbatim>\<open>NotImplementedError\<close>, and \<open>Some ts\<close> is the closure \<^verbatim>\<open>lambda : str(msgTypes)\<close> that the
  factory stores, kept as the \<^verbatim>\<open>msgTypes\<close> it captured (the string it would build is not
  computed here). Durations are Python floats read from the clock; only their order is
  used, so they are reals here.
\<close>

record 'm future =
  self_id :: callback
  messages :: "'m list"
  timeout :: real
  minwait :: real
  sleeptime :: real
  autoclose :: bool
  filter' :: "'m \<Rightarrow> bool"
  name' :: "msg_types option"

text \<open>\<^verbatim>\<open>Future.__init__\<close>, for the object allocated at \<open>addr\<close>.\<close>

definition Future_init ::
  "callback \<Rightarrow> real \<Rightarrow> real \<Rightarrow> real \<Rightarrow> bool \<Rightarrow> exn + 'm future" where
  "Future_init addr timeout_arg minwait_arg sleeptime_arg autoclose_arg =
     (if \<not> minwait_arg < timeout_arg then Inl AssertionError
      else Inr \<lparr> self_id = addr, messages = [], timeout = timeout_arg,
                 minwait = minwait_arg, sleeptime = sleeptime_arg,
                 autoclose = autoclose_arg, filter' = (\<lambda>msg. True), name' = None \<rparr>)"

text \<open>\<^verbatim>\<open>Future.notify\<close>: a message the filter rejects is dropped, any other is appended.\<close>

definition notify :: "'m future \<Rightarrow> 'm \<Rightarrow> 'm future" where
  "notify self msg =
     (if \<not> filter' self msg then self
      else self\<lparr>messages := messages self @ [msg]\<rparr>)"

text \<open>
  \<^verbatim>\<open>Future.close\<close>: one call of \<^verbatim>\<open>unregisterAll\<close> on the connection with the future's own
  callback. The future itself is returned as it was.
\<close>

definition close :: "'m future \<Rightarrow> conn \<Rightarrow> 'm future \<times> conn" where
  "close self con = (self, unregisterAll (self_id self) con)"

subsection \<open>The blocking getters\<close>

text \<open>
  While the caller sleeps, the connection's thread may call \<^verbatim>\<open>notify\<close>; after the sleep the
  caller reads the clock. One round of the loop of \<^verbatim>\<open>_get_select\<close> therefore consumes one
  \<open>tick\<close> of the environment: the messages \<^verbatim>\<open>notify\<close> was called with during
  \<^verbatim>\<open>sleep(self.sleeptime)\<close>, in order, and the value of \<^verbatim>\<open>time() - startTime\<close> read after it.
  The environment is the list of the ticks to come. The loop may run for ever in Python;
  here it returns \<open>None\<close> when the list ends while it is still waiting.
\<close>

type_synonym 'm tick = "'m list \<times> real"

text \<open>
  The \<^verbatim>\<open>while\<close> loop of \<^verbatim>\<open>_get_select\<close>. Its state is the future and the local variable
  \<^verbatim>\<open>elapsedTime\<close>. The result holds the outcome (\<open>Inl\<close>: the exception raised inside the
  loop), the future and \<^verbatim>\<open>elapsedTime\<close> at that moment, and the ticks not consumed.
\<close>

fun wait_loop ::
  "'m future \<Rightarrow> real \<Rightarrow> 'm tick list \<Rightarrow> ((exn + unit) \<times> 'm future \<times> real \<times> 'm tick list) option"
where
  "wait_loop self elapsedTime env =
     (if messages self = [] \<or> elapsedTime < minwait self then
        (if elapsedTime > timeout self then Some (Inl TimeoutException, self, elapsedTime, env)
         else (case env of
                 [] \<Rightarrow> None
               | (msgs, t) # env' \<Rightarrow> wait_loop (foldl notify self msgs) t env'))
      else Some (Inr (), self, elapsedTime, env))"

text \<open>
  \<^verbatim>\<open>Future._get_select\<close>: the loop, started with \<^verbatim>\<open>elapsedTime = 0\<close>; then, if the loop ended
  without raising, \<^verbatim>\<open>close\<close> when \<^verbatim>\<open>autoclose\<close> is set, and the selection applied to the buffer.
  The result holds the value returned or the exception raised, the future, the connection
  and the ticks not consumed.
\<close>

definition get_select ::
  "('m list \<Rightarrow> exn + 'r) \<Rightarrow> 'm future \<Rightarrow> conn \<Rightarrow> 'm tick list
     \<Rightarrow> ((exn + 'r) \<times> 'm future \<times> conn \<times> 'm tick list) option" where
  "get_select select self con env =
     (case wait_loop self 0 env of
        None \<Rightarrow> None
      | Some (Inl e, self1, elapsedTime, env1) \<Rightarrow> Some (Inl e, self1, con, env1)
      | Some (Inr u, self1, elapsedTime, env1) \<Rightarrow>
          (case (if autoclose self1 then close self1 con else (self1, con)) of
             (self2, con2) \<Rightarrow> Some (select (messages self2), self2, con2, env1)))"

text \<open>Python's \<^verbatim>\<open>x[i]\<close> on a list: a negative index counts from the end.\<close>

definition item :: "'a list \<Rightarrow> int \<Rightarrow> exn + 'a" where
  "item x i =
     (if 0 \<le> i \<and> i < int (length x) then Inr (x ! nat i)
      else if i < 0 \<and> - int (length x) \<le> i then Inr (x ! nat (int (length x) + i))
      else Inl IndexError)"

text \<open>\<^verbatim>\<open>Future.get\<close>, \<^verbatim>\<open>get_first\<close>, \<^verbatim>\<open>get_last\<close> and \<^verbatim>\<open>get_all\<close>.\<close>

definition get ::
  "bool \<Rightarrow> 'm future \<Rightarrow> conn \<Rightarrow> 'm tick list
     \<Rightarrow> ((exn + 'm) \<times> 'm future \<times> conn \<times> 'm tick list) option" where
  "get first_not_recent =
     get_select (\<lambda>x. if first_not_recent then item x 0 else item x (- 1))"

definition get_first ::
  "'m future \<Rightarrow> conn \<Rightarrow> 'm tick list \<Rightarrow> ((exn + 'm) \<times> 'm future \<times> conn \<times> 'm tick list) option"
where
  "get_first = get True"

definition get_last ::
  "'m future \<Rightarrow> conn \<Rightarrow> 'm tick list \<Rightarrow> ((exn + 'm) \<times> 'm future \<times> conn \<times> 'm tick list) option"
where
  "get_last = get False"

definition get_all ::
  "'m future \<Rightarrow> conn \<Rightarrow> 'm tick list
     \<Rightarrow> ((exn + 'm list) \<times> 'm future \<times> conn \<times> 'm tick list) option" where
  "get_all = get_select (\<lambda>x. Inr x)"

subsection \<open>The factory\<close>

text \<open>
  The keyword arguments \<^verbatim>\<open>**keyvalues\<close> that the factory hands to \<^verbatim>\<open>Future.__init__\<close>; a
  keyword left out takes the default of the signature (\<^verbatim>\<open>timeout=5.0, minwait=0.1,
  sleeptime=0.1, autoclose=True\<close>).
\<close>

record keyvalues =
  kw_timeout :: "real option"
  kw_minwait :: "real option"
  kw_sleeptime :: "real option"
  kw_autoclose :: "bool option"

definition Future_kw :: "callback \<Rightarrow> keyvalues \<Rightarrow> exn + 'm future" where
  "Future_kw addr kw =
     Future_init addr
       (case kw_timeout kw of None \<Rightarrow> 5 | Some v \<Rightarrow> v)
       (case kw_minwait kw of None \<Rightarrow> 1 / 10 | Some v \<Rightarrow> v)
       (case kw_sleeptime kw of None \<Rightarrow> 1 / 10 | Some v \<Rightarrow> v)
       (case kw_autoclose kw of None \<Rightarrow> True | Some v \<Rightarrow> v)"

text \<open>
  \<^verbatim>\<open>FutureFactory.create_filtered\<close>. \<open>addr\<close> is the identity of the future it allocates. The
  request function is "the function on the connection" of the docstring: it takes its
  arguments and the connection, and returns or raises, leaving the connection in some
  state either way. The truth test \<^verbatim>\<open>if filter:\<close> is on \<^verbatim>\<open>None\<close> or a function. When the
  \<^verbatim>\<open>for\<close> statement cannot start, its exception leaves the factory with nothing registered
  and the request not issued.
\<close>

definition create_filtered ::
  "callback \<Rightarrow> msg_types \<Rightarrow> ('m \<Rightarrow> bool) option
     \<Rightarrow> ('a list \<Rightarrow> conn \<Rightarrow> (exn + unit) \<times> conn) \<Rightarrow> 'a list \<Rightarrow> keyvalues
     \<Rightarrow> conn \<Rightarrow> (exn + 'm future) \<times> conn" where
  "create_filtered addr msgTypes filter_arg requestFct reqValues kw con =
     (case Future_kw addr kw of
        Inl e \<Rightarrow> (Inl e, con)
      | Inr f0 \<Rightarrow>
          (let f1 = f0\<lparr>name' := Some msgTypes\<rparr>;
               f = (case filter_arg of None \<Rightarrow> f1 | Some p \<Rightarrow> f1\<lparr>filter' := p\<rparr>)
           in (case loop_items msgTypes of
                 Inl e \<Rightarrow> (Inl e, con)
               | Inr ts \<Rightarrow>
                   (let con1 = foldl (\<lambda>c t. register (self_id f) t c) con ts
                    in (case requestFct reqValues con1 of
                          (Inl e, con2) \<Rightarrow> (Inl e, con2)
                        | (Inr u, con2) \<Rightarrow> (Inr f, con2))))))"

text \<open>\<^verbatim>\<open>FutureFactory.create\<close>: \<^verbatim>\<open>create_filtered\<close> with \<^verbatim>\<open>None\<close> for the filter.\<close>

definition create ::
  "callback \<Rightarrow> msg_types \<Rightarrow> ('a list \<Rightarrow> conn \<Rightarrow> (exn + unit) \<times> conn) \<Rightarrow> 'a list \<Rightarrow> keyvalues
     \<Rightarrow> conn \<Rightarrow> (exn + 'm future) \<times> conn" where
  "create addr msgTypes requestFct reqValues kw con =
     create_filtered addr msgTypes None requestFct reqValues kw con"

section \<open>Properties\<close>

subsection \<open>The loop and the getters\<close>

text \<open>The equation of the loop is recursive; it is unfolded by hand, one round at a time.\<close>

declare wait_loop.simps [simp del]


lemma notify_eq: "notify f m = f\<lparr>messages := messages f @ filter (filter' f) [m]\<rparr>"
  by (simp add: notify_def)

lemma foldl_notify:
  "foldl notify f ms = f\<lparr>messages := messages f @ filter (filter' f) ms\<rparr>"
proof (induction ms arbitrary: f)
  case Nil
  show ?case by simp
next
  case (Cons m ms)
  have "foldl notify f (m # ms) = foldl notify (notify f m) ms" by simp
  also have "\<dots> = (notify f m)\<lparr>messages := messages (notify f m) @ filter (filter' (notify f m)) ms\<rparr>"
    by (rule Cons.IH)
  also have "\<dots> = f\<lparr>messages := messages f @ filter (filter' f) (m # ms)\<rparr>"
    by (simp add: notify_eq)
  finally show ?case .
qed

lemma wait_loop_result:
  "wait_loop f el env = Some (r, f', el', rest) \<Longrightarrow>
   \<exists>used. env = used @ rest
     \<and> f' = f\<lparr>messages := messages f @ filter (filter' f) (concat (map fst used))\<rparr>
     \<and> el' = last (el # map snd used)
     \<and> (case r of
          Inr u \<Rightarrow> messages f' \<noteq> [] \<and> minwait f \<le> el'
        | Inl e \<Rightarrow> e = TimeoutException \<and> timeout f < el'
                   \<and> (messages f' = [] \<or> el' < minwait f))"
proof (induction env arbitrary: f el)
  case Nil
  then show ?case
    by (auto simp: wait_loop.simps [of f el "[]"] split: if_splits)
next
  case (Cons tk env)
  obtain msgs t where tk: "tk = (msgs, t)" by (cases tk)
  show ?case
  proof (cases "messages f = [] \<or> el < minwait f")
    case waiting: True
    show ?thesis
    proof (cases "timeout f < el")
      case True
      with waiting Cons.prems show ?thesis
        by (auto simp: wait_loop.simps [of f el "tk # env"])
    next
      case False
      with waiting Cons.prems
      have "wait_loop (foldl notify f msgs) t env = Some (r, f', el', rest)"
        unfolding tk by (simp add: wait_loop.simps [of f el "(msgs, t) # env"])
      from Cons.IH [OF this] obtain used where u:
        "env = used @ rest"
        "f' = (foldl notify f msgs)\<lparr>messages := messages (foldl notify f msgs)
              @ filter (filter' (foldl notify f msgs)) (concat (map fst used))\<rparr>"
        "el' = last (t # map snd used)"
        "(case r of
          Inr u \<Rightarrow> messages f' \<noteq> [] \<and> minwait (foldl notify f msgs) \<le> el'
        | Inl e \<Rightarrow> e = TimeoutException \<and> timeout (foldl notify f msgs) < el'
                   \<and> (messages f' = [] \<or> el' < minwait (foldl notify f msgs)))"
        by blast
      have "tk # env = (tk # used) @ rest" using u(1) by simp
      moreover have "f' = f\<lparr>messages := messages f @ filter (filter' f) (concat (map fst (tk # used)))\<rparr>"
        using u(2) tk by (simp add: foldl_notify)
      moreover have "el' = last (el # map snd (tk # used))"
        using u(3) tk by simp
      moreover have "(case r of
          Inr u \<Rightarrow> messages f' \<noteq> [] \<and> minwait f \<le> el'
        | Inl e \<Rightarrow> e = TimeoutException \<and> timeout f < el'
                   \<and> (messages f' = [] \<or> el' < minwait f))"
        using u(4) by (simp add: foldl_notify split: sum.splits)
      ultimately show ?thesis by blast
    qed
  next
    case False
    with Cons.prems show ?thesis
      by (auto simp: wait_loop.simps [of f el "tk # env"])
  qed
qed

lemma wait_loop_exit:
  "messages f \<noteq> [] \<Longrightarrow> minwait f \<le> el \<Longrightarrow> wait_loop f el env = Some (Inr (), f, el, env)"
  by (simp add: wait_loop.simps [of f el env])

lemma wait_loop_raise:
  "messages f = [] \<or> el < minwait f \<Longrightarrow> timeout f < el \<Longrightarrow>
   wait_loop f el env = Some (Inl TimeoutException, f, el, env)"
  by (simp add: wait_loop.simps [of f el env])

lemma wait_loop_sleep:
  "messages f = [] \<or> el < minwait f \<Longrightarrow> el \<le> timeout f \<Longrightarrow>
   wait_loop f el ((msgs, t) # env) = wait_loop (foldl notify f msgs) t env"
  by (simp add: wait_loop.simps [of f el "(msgs, t) # env"])

lemma wait_loop_exhausted:
  "messages f = [] \<or> el < minwait f \<Longrightarrow> el \<le> timeout f \<Longrightarrow> wait_loop f el [] = None"
  by (simp add: wait_loop.simps [of f el "[]"])

lemma foldl_notify_rejected:
  "\<forall>m\<in>set ms. \<not> filter' f m \<Longrightarrow> foldl notify f ms = f"
  by (simp add: foldl_notify)

lemma wait_loop_empty_waiting:
  "messages f = [] \<Longrightarrow> \<forall>tk\<in>set env. \<forall>m\<in>set (fst tk). \<not> filter' f m \<Longrightarrow>
   \<forall>e\<in>set (el # map snd env). e \<le> timeout f \<Longrightarrow> wait_loop f el env = None"
proof (induction env arbitrary: el)
  case Nil
  then show ?case by (simp add: wait_loop_exhausted)
next
  case (Cons tk env)
  obtain msgs t where tk: "tk = (msgs, t)" by (cases tk)
  have rej: "foldl notify f msgs = f"
    using Cons.prems(2) tk by (simp add: foldl_notify_rejected)
  have "wait_loop f el (tk # env) = wait_loop f t env"
    unfolding tk using Cons.prems(1,3) rej by (simp add: wait_loop_sleep)
  also have "\<dots> = None"
    using Cons.prems tk by (intro Cons.IH) auto
  finally show ?case .
qed

lemma wait_loop_empty_timeout:
  "messages f = [] \<Longrightarrow> \<forall>tk\<in>set used. \<forall>m\<in>set (fst tk). \<not> filter' f m \<Longrightarrow>
   \<forall>e\<in>set (butlast (el # map snd used)). e \<le> timeout f \<Longrightarrow>
   timeout f < last (el # map snd used) \<Longrightarrow>
   wait_loop f el (used @ rest) = Some (Inl TimeoutException, f, last (el # map snd used), rest)"
proof (induction used arbitrary: el)
  case Nil
  then show ?case by (simp add: wait_loop_raise)
next
  case (Cons tk used)
  obtain msgs t where tk: "tk = (msgs, t)" by (cases tk)
  have rej: "foldl notify f msgs = f"
    using Cons.prems(2) tk by (simp add: foldl_notify_rejected)
  have le: "el \<le> timeout f" using Cons.prems(3) by simp
  have "wait_loop f el ((tk # used) @ rest) = wait_loop f t (used @ rest)"
    unfolding tk using Cons.prems(1) le rej by (simp add: wait_loop_sleep)
  also have "\<dots> = Some (Inl TimeoutException, f, last (t # map snd used), rest)"
    using Cons.prems tk by (intro Cons.IH) auto
  finally show ?case using tk by simp
qed

lemma wait_loop_empty_no_value:
  "messages f = [] \<Longrightarrow> \<forall>tk\<in>set env. \<forall>m\<in>set (fst tk). \<not> filter' f m \<Longrightarrow>
   wait_loop f el env \<noteq> Some (Inr u, f', el', rest)"
proof
  assume e: "messages f = []" and r: "\<forall>tk\<in>set env. \<forall>m\<in>set (fst tk). \<not> filter' f m"
    and w: "wait_loop f el env = Some (Inr u, f', el', rest)"
  from wait_loop_result [OF w] obtain used where u: "env = used @ rest"
    "f' = f\<lparr>messages := messages f @ filter (filter' f) (concat (map fst used))\<rparr>"
    "messages f' \<noteq> []" by auto
  have "\<forall>m\<in>set (concat (map fst used)). \<not> filter' f m" using r u(1) by auto
  then have "filter (filter' f) (concat (map fst used)) = []" by simp
  with u(2,3) e show False by simp
qed

lemma item_first: "x \<noteq> [] \<Longrightarrow> item x 0 = Inr (hd x)"
  by (cases x) (simp_all add: item_def)

lemma item_last: "x \<noteq> [] \<Longrightarrow> item x (- 1) = Inr (last x)"
  by (simp add: item_def last_conv_nth nat_diff_distrib' of_nat_diff Suc_leI)

lemma get_select_result:
  assumes "get_select sel f con env = Some (r, f', con', rest)"
  shows "\<exists>used el. env = used @ rest
     \<and> f' = f\<lparr>messages := messages f @ filter (filter' f) (concat (map fst used))\<rparr>
     \<and> el = last (0 # map snd used)
     \<and> (wait_loop f 0 env = Some (Inl TimeoutException, f', el, rest)
          \<and> r = Inl TimeoutException \<and> con' = con \<and> timeout f < el
          \<and> (messages f' = [] \<or> el < minwait f)
        \<or> wait_loop f 0 env = Some (Inr (), f', el, rest)
          \<and> r = sel (messages f')
          \<and> con' = (if autoclose f then unregisterAll (self_id f) con else con)
          \<and> messages f' \<noteq> [] \<and> minwait f \<le> el)"
proof -
  from assms obtain o1 el where w: "wait_loop f 0 env = Some (o1, f', el, rest)"
    and o: "(case o1 of Inl e \<Rightarrow> r = Inl e \<and> con' = con
            | Inr u \<Rightarrow> r = sel (messages f')
                \<and> con' = (if autoclose f' then unregisterAll (self_id f') con else con))"
    by (auto simp: get_select_def close_def split: option.splits sum.splits if_splits)
  from wait_loop_result [OF w] obtain used where u: "env = used @ rest"
    "f' = f\<lparr>messages := messages f @ filter (filter' f) (concat (map fst used))\<rparr>"
    "el = last (0 # map snd used)"
    "(case o1 of
          Inr u \<Rightarrow> messages f' \<noteq> [] \<and> minwait f \<le> el
        | Inl e \<Rightarrow> e = TimeoutException \<and> timeout f < el
                   \<and> (messages f' = [] \<or> el < minwait f))"
    by blast
  have a: "autoclose f' = autoclose f" "self_id f' = self_id f" using u(2) by simp_all
  show ?thesis
  proof (cases o1)
    case (Inl e)
    with w o u(4) have "wait_loop f 0 env = Some (Inl TimeoutException, f', el, rest)
          \<and> r = Inl TimeoutException \<and> con' = con \<and> timeout f < el
          \<and> (messages f' = [] \<or> el < minwait f)" by simp
    with u(1,2,3) show ?thesis by blast
  next
    case (Inr x)
    with w o u(4) a have "wait_loop f 0 env = Some (Inr (), f', el, rest)
          \<and> r = sel (messages f')
          \<and> con' = (if autoclose f then unregisterAll (self_id f) con else con)
          \<and> messages f' \<noteq> [] \<and> minwait f \<le> el" by simp
    with u(1,2,3) show ?thesis by blast
  qed
qed

lemma get_select_timeout:
  "wait_loop f 0 env = Some (Inl e, f', el, rest) \<Longrightarrow>
   get_select sel f con env = Some (Inl e, f', con, rest)"
  by (simp add: get_select_def)

lemma get_select_waiting:
  "wait_loop f 0 env = None \<Longrightarrow> get_select sel f con env = None"
  by (simp add: get_select_def)

lemma get_select_success:
  "wait_loop f 0 env = Some (Inr u, f', el, rest) \<Longrightarrow>
   get_select sel f con env =
     Some (sel (messages f'), f', if autoclose f' then unregisterAll (self_id f') con else con, rest)"
  by (simp add: get_select_def close_def)

lemma wait_loop_first_settled:
  "\<forall>n<length used.
       (messages f @ filter (filter' f) (concat (map fst (take n used))) = []
          \<or> last (el # map snd (take n used)) < minwait f)
       \<and> last (el # map snd (take n used)) \<le> timeout f \<Longrightarrow>
   messages f @ filter (filter' f) (concat (map fst used)) \<noteq> [] \<Longrightarrow>
   minwait f \<le> last (el # map snd used) \<Longrightarrow>
   wait_loop f el (used @ rest) =
     Some (Inr (), f\<lparr>messages := messages f @ filter (filter' f) (concat (map fst used))\<rparr>,
           last (el # map snd used), rest)"
proof (induction used arbitrary: f el)
  case Nil
  then show ?case by (simp add: wait_loop_exit)
next
  case (Cons tk used)
  obtain msgs t where tk: "tk = (msgs, t)" by (cases tk)
  let ?g = "foldl notify f msgs"
  have g: "?g = f\<lparr>messages := messages f @ filter (filter' f) msgs\<rparr>"
    by (rule foldl_notify)
  from Cons.prems(1) have head: "(messages f = [] \<or> el < minwait f) \<and> el \<le> timeout f"
    by auto
  have step: "wait_loop f el ((tk # used) @ rest) = wait_loop ?g t (used @ rest)"
    unfolding tk using head by (simp add: wait_loop_sleep)
  have later: "\<forall>n<length used.
       (messages ?g @ filter (filter' ?g) (concat (map fst (take n used))) = []
          \<or> last (t # map snd (take n used)) < minwait ?g)
       \<and> last (t # map snd (take n used)) \<le> timeout ?g"
  proof (intro allI impI)
    fix n assume "n < length used"
    then have "Suc n < length (tk # used)" by simp
    with Cons.prems(1) have
      "(messages f @ filter (filter' f) (concat (map fst (take (Suc n) (tk # used)))) = []
          \<or> last (el # map snd (take (Suc n) (tk # used))) < minwait f)
       \<and> last (el # map snd (take (Suc n) (tk # used))) \<le> timeout f"
      by blast
    then show "(messages ?g @ filter (filter' ?g) (concat (map fst (take n used))) = []
          \<or> last (t # map snd (take n used)) < minwait ?g)
       \<and> last (t # map snd (take n used)) \<le> timeout ?g"
      unfolding g using tk by simp
  qed
  have ne: "messages ?g @ filter (filter' ?g) (concat (map fst used)) \<noteq> []"
    unfolding g using Cons.prems(2) tk by simp
  have mw: "minwait ?g \<le> last (t # map snd used)"
    unfolding g using Cons.prems(3) tk by simp
  have "wait_loop ?g t (used @ rest) =
     Some (Inr (), ?g\<lparr>messages := messages ?g @ filter (filter' ?g) (concat (map fst used))\<rparr>,
           last (t # map snd used), rest)"
    using later ne mw by (rule Cons.IH)
  with step show ?case unfolding g using tk by simp
qed

lemma get_select_cases [consumes 1, case_names raised returned]:
  assumes "get_select sel f con env = Some (r, f', con', rest)"
  obtains used where "env = used @ rest"
      and "f' = f\<lparr>messages := messages f @ filter (filter' f) (concat (map fst used))\<rparr>"
      and "r = Inl TimeoutException" and "con' = con"
      and "timeout f < last (0 # map snd used)"
  | used where "env = used @ rest"
      and "f' = f\<lparr>messages := messages f @ filter (filter' f) (concat (map fst used))\<rparr>"
      and "r = sel (messages f')"
      and "con' = (if autoclose f then unregisterAll (self_id f) con else con)"
      and "messages f' \<noteq> []" and "minwait f \<le> last (0 # map snd used)"
proof -
  from get_select_result [OF assms] obtain used el where u: "env = used @ rest
     \<and> f' = f\<lparr>messages := messages f @ filter (filter' f) (concat (map fst used))\<rparr>
     \<and> el = last (0 # map snd used)
     \<and> (wait_loop f 0 env = Some (Inl TimeoutException, f', el, rest)
          \<and> r = Inl TimeoutException \<and> con' = con \<and> timeout f < el
          \<and> (messages f' = [] \<or> el < minwait f)
        \<or> wait_loop f 0 env = Some (Inr (), f', el, rest)
          \<and> r = sel (messages f')
          \<and> con' = (if autoclose f then unregisterAll (self_id f) con else con)
          \<and> messages f' \<noteq> [] \<and> minwait f \<le> el)"
    by (elim exE)
  from u have e: "env = used @ rest"
    and m: "f' = f\<lparr>messages := messages f @ filter (filter' f) (concat (map fst used))\<rparr>"
    and l: "el = last (0 # map snd used)"
    by simp_all
  from u have "r = Inl TimeoutException \<and> con' = con \<and> timeout f < el
        \<or> r = sel (messages f')
          \<and> con' = (if autoclose f then unregisterAll (self_id f) con else con)
          \<and> messages f' \<noteq> [] \<and> minwait f \<le> el"
    by (elim conjE disjE) simp_all
  then show thesis
  proof
    assume a: "r = Inl TimeoutException \<and> con' = con \<and> timeout f < el"
    from a have a1: "r = Inl TimeoutException" by (rule conjunct1)
    from a have a2: "con' = con" by (rule conjunct2 [THEN conjunct1])
    from a have a3: "timeout f < last (0 # map snd used)"
      unfolding l by (rule conjunct2 [THEN conjunct2])
    from e m a1 a2 a3 show thesis by (rule that(1))
  next
    assume b: "r = sel (messages f')
          \<and> con' = (if autoclose f then unregisterAll (self_id f) con else con)
          \<and> messages f' \<noteq> [] \<and> minwait f \<le> el"
    from b have b1: "r = sel (messages f')" by (rule conjunct1)
    from b have b2: "con' = (if autoclose f then unregisterAll (self_id f) con else con)"
      by (rule conjunct2 [THEN conjunct1])
    from b have b3: "messages f' \<noteq> []"
      by (rule conjunct2 [THEN conjunct2, THEN conjunct1])
    from b have b4: "minwait f \<le> last (0 # map snd used)"
      unfolding l by (rule conjunct2 [THEN conjunct2, THEN conjunct2])
    from e m b1 b2 b3 b4 show thesis by (rule that(2))
  qed
qed

lemma get_select_closes:
  assumes "get_select sel f con env = Some (Inr x, f', con', rest)"
  shows "con' = (if autoclose f then snd (close f' con) else con)"
  using assms
proof (cases rule: get_select_cases)
  case (raised used)
  then show ?thesis by simp
next
  case (returned used)
  from returned(2) have "self_id f' = self_id f" by simp
  with returned(4) show ?thesis by (simp add: close_def)
qed

lemma get_select_raises:
  assumes "get_select sel f con env = Some (Inl e, f', con', rest)"
    and "\<And>x. x \<noteq> [] \<Longrightarrow> \<exists>y. sel x = Inr y"
  shows "e = TimeoutException \<and> con' = con
      \<and> (\<exists>used. env = used @ rest
           \<and> f' = f\<lparr>messages := messages f @ filter (filter' f) (concat (map fst used))\<rparr>)"
  using assms(1)
proof (cases rule: get_select_cases)
  case (raised used)
  then show ?thesis by blast
next
  case (returned used)
  from assms(2) [OF returned(5)] returned(3) show ?thesis by auto
qed

lemma item_selects:
  "x \<noteq> [] \<Longrightarrow> \<exists>y. (if b then item x 0 else item x (- 1)) = Inr y"
  by (simp add: item_first item_last)

subsection \<open>The factory and the selections\<close>

lemma get_first_select: "get_first = get_select (\<lambda>x. item x 0)"
  by (simp add: get_first_def get_def)

lemma get_last_select: "get_last = get_select (\<lambda>x. item x (- 1))"
  by (simp add: get_last_def get_def)

lemma get_select_change_selection:
  "get_select sel f con env =
     (case get_select (\<lambda>x. Inr x) f con env of
        None \<Rightarrow> None
      | Some (Inl e, s) \<Rightarrow> Some (Inl e, s)
      | Some (Inr xs, s) \<Rightarrow> Some (sel xs, s))"
  by (simp add: get_select_def close_def split: option.splits sum.splits prod.splits)

lemma future_created:
  "Future_kw addr kw = Inr f0 \<Longrightarrow>
   self_id f0 = addr \<and> messages f0 = [] \<and> filter' f0 = (\<lambda>msg. True) \<and> name' f0 = None
   \<and> minwait f0 < timeout f0"
  by (auto simp: Future_kw_def Future_init_def split: if_splits)

lemma foldl_register:
  "foldl (\<lambda>c t. register a t c) con ts = con @ map (Pair a) ts"
  by (induction ts arbitrary: con) (simp_all add: register_def)


lemma create_filtered_result:
  assumes "Future_kw addr kw = Inr f0"
  shows "create_filtered addr msgTypes flt req args kw con =
     (case loop_items msgTypes of
        Inl e \<Rightarrow> (Inl e, con)
      | Inr ts \<Rightarrow>
          (case req args (con @ map (Pair addr) ts) of
             (Inl e, con2) \<Rightarrow> (Inl e, con2)
           | (Inr u, con2) \<Rightarrow>
               (Inr (f0\<lparr>filter' := (case flt of None \<Rightarrow> (\<lambda>msg. True) | Some p \<Rightarrow> p),
                        name' := Some msgTypes\<rparr>), con2)))"
proof -
  have id: "self_id f0 = addr" and fl: "filter' f0 = (\<lambda>msg. True)"
    using future_created [OF assms] by simp_all
  have none: "f0\<lparr>filter' := (\<lambda>msg. True)\<rparr> = f0"
    using fl by (cases f0) simp
  have f: "(case flt of None \<Rightarrow> f0\<lparr>name' := Some msgTypes\<rparr>
             | Some p \<Rightarrow> f0\<lparr>name' := Some msgTypes, filter' := p\<rparr>)
           = f0\<lparr>filter' := (case flt of None \<Rightarrow> (\<lambda>msg. True) | Some p \<Rightarrow> p),
                 name' := Some msgTypes\<rparr>"
    using none by (cases flt) simp_all
  have sid: "self_id (f0\<lparr>filter' := (case flt of None \<Rightarrow> (\<lambda>msg. True) | Some p \<Rightarrow> p),
                 name' := Some msgTypes\<rparr>) = addr"
    using id by simp
  show ?thesis
    unfolding create_filtered_def assms Let_def sum.case f sid foldl_register ..
qed

subsection \<open>The connection and the factory's calls\<close>

lemma unregisterAll_member:
  "(p \<in> set (unregisterAll cb con)) = (p \<in> set con \<and> fst p \<noteq> cb)"
  by (auto simp: unregisterAll_def)

lemma unregisterAll_twice: "unregisterAll cb (unregisterAll cb con) = unregisterAll cb con"
  by (simp add: unregisterAll_def)

lemma get_select_connection:
  "map_option (\<lambda>(r, g, c, rest). (r, g, rest)) (get_select sel f con env)
   = map_option (\<lambda>(r, g, c, rest). (r, g, rest)) (get_select sel f con' env)"
  by (simp add: get_select_def close_def split: option.splits sum.splits prod.splits)

lemma create_filtered_calls:
  assumes "Future_kw addr kw = Inr f0"
  shows "create_filtered addr msgTypes flt req args kw con =
     (case loop_items msgTypes of
        Inl e \<Rightarrow> (Inl e, con)
      | Inr ts \<Rightarrow>
          (case req args (foldl (\<lambda>c t. register addr t c) con ts) of
             (Inl e, con2) \<Rightarrow> (Inl e, con2)
           | (Inr u, con2) \<Rightarrow>
               (Inr (f0\<lparr>filter' := (case flt of None \<Rightarrow> (\<lambda>msg. True) | Some p \<Rightarrow> p),
                        name' := Some msgTypes\<rparr>), con2)))"
  unfolding create_filtered_result [OF assms] foldl_register ..

subsection \<open>Timeout\<close>

text \<open>
  Claim C1, as the code has it. Take a call of a blocking getter (any selection, so
  \<^verbatim>\<open>get_first\<close>, \<^verbatim>\<open>get_last\<close> and \<^verbatim>\<open>get_all\<close>) that starts on an empty buffer and during which
  every message delivered is rejected by the filter. Then: whatever the call ends with, it
  is \<open>TimeoutException\<close>, with the future and the connection as they were, so it never
  returns a value; as long as no clock reading is greater than \<open>timeout\<close> (a reading equal
  to it included) the call goes on sleeping; and at the first reading that is strictly
  greater than \<open>timeout\<close> the call raises \<open>TimeoutException\<close>, leaving the later ticks
  unconsumed. So once the clock passes \<open>timeout\<close> the call has ended.
\<close>

theorem timeout_when_buffer_stays_empty:
  assumes "messages f = []"
    and "\<forall>tk\<in>set env. \<forall>m\<in>set (fst tk). \<not> filter' f m"
  shows "(\<forall>r f' con' rest. get_select sel f con env = Some (r, f', con', rest) \<longrightarrow>
            r = Inl TimeoutException \<and> f' = f \<and> con' = con)
     \<and> ((\<forall>e\<in>set (0 # map snd env). e \<le> timeout f) \<longrightarrow> get_select sel f con env = None)
     \<and> (\<forall>used rest. env = used @ rest
            \<and> (\<forall>e\<in>set (butlast (0 # map snd used)). e \<le> timeout f)
            \<and> timeout f < last (0 # map snd used) \<longrightarrow>
          get_select sel f con env = Some (Inl TimeoutException, f, con, rest))"
proof (intro conjI allI impI)
  fix r f' con' rest
  assume g: "get_select sel f con env = Some (r, f', con', rest)"
  from get_select_result [OF g] obtain used el where u: "env = used @ rest"
    "f' = f\<lparr>messages := messages f @ filter (filter' f) (concat (map fst used))\<rparr>"
    "wait_loop f 0 env = Some (Inl TimeoutException, f', el, rest)
          \<and> r = Inl TimeoutException \<and> con' = con
     \<or> wait_loop f 0 env = Some (Inr (), f', el, rest)"
    by blast
  have "\<forall>m\<in>set (concat (map fst used)). \<not> filter' f m" using assms(2) u(1) by auto
  then have "filter (filter' f) (concat (map fst used)) = []" by simp
  with u(2) assms(1) have same: "f' = f" by simp
  from u(3) wait_loop_empty_no_value [OF assms, of 0 "()" f' el rest]
  have "r = Inl TimeoutException \<and> con' = con" by blast
  with same show "r = Inl TimeoutException" "f' = f" "con' = con" by simp_all
next
  assume "\<forall>e\<in>set (0 # map snd env). e \<le> timeout f"
  with assms have "wait_loop f 0 env = None" by (rule wait_loop_empty_waiting)
  then show "get_select sel f con env = None" by (rule get_select_waiting)
next
  fix used rest
  assume a: "env = used @ rest
            \<and> (\<forall>e\<in>set (butlast (0 # map snd used)). e \<le> timeout f)
            \<and> timeout f < last (0 # map snd used)"
  have "\<forall>tk\<in>set used. \<forall>m\<in>set (fst tk). \<not> filter' f m" using assms(2) a by auto
  with assms(1) a have "wait_loop f 0 (used @ rest) =
      Some (Inl TimeoutException, f, last (0 # map snd used), rest)"
    by (intro wait_loop_empty_timeout) auto
  with a show "get_select sel f con env = Some (Inl TimeoutException, f, con, rest)"
    by (simp add: get_select_timeout)
qed

theorem timeout_when_buffer_stays_empty_witness:
  "get_all \<lparr> self_id = 7, messages = [], timeout = 3 / 10, minwait = 1 / 10, sleeptime = 1 / 10,
             autoclose = True, filter' = (\<lambda>m. m = ''X''), name' = None \<rparr>
     [(7, Name ''tick'')]
     [([''Y''], 1 / 10), ([], 2 / 10), ([], 3 / 10), ([], 4 / 10), ([''Z''], 5 / 10)]
   = Some (Inl TimeoutException,
       \<lparr> self_id = 7, messages = [], timeout = 3 / 10, minwait = 1 / 10, sleeptime = 1 / 10,
         autoclose = True, filter' = (\<lambda>m. m = ''X''), name' = None \<rparr>,
       [(7, Name ''tick'')], [([''Z''], 5 / 10)])"
proof -
  let ?f = "\<lparr> self_id = 7, messages = [], timeout = 3 / 10, minwait = 1 / 10,
              sleeptime = 1 / 10, autoclose = True, filter' = (\<lambda>m. m = ''X''),
              name' = None \<rparr> :: string future"
  let ?used = "[([''Y''], 1 / 10), ([], 2 / 10), ([], 3 / 10), ([], 4 / 10)] :: string tick list"
  let ?rest = "[([''Z''], 5 / 10)] :: string tick list"
  have h1: "messages ?f = []" by simp
  have h2: "\<forall>tk\<in>set (?used @ ?rest). \<forall>m\<in>set (fst tk). \<not> filter' ?f m"
    by simp
  have h3: "?used @ ?rest = ?used @ ?rest
            \<and> (\<forall>e\<in>set (butlast (0 # map snd ?used)). e \<le> timeout ?f)
            \<and> timeout ?f < last (0 # map snd ?used)"
    by simp
  from timeout_when_buffer_stays_empty [OF h1 h2, of "\<lambda>x. Inr x" "[(7, Name ''tick'')]"]
  have "\<forall>used rest. ?used @ ?rest = used @ rest
            \<and> (\<forall>e\<in>set (butlast (0 # map snd used)). e \<le> timeout ?f)
            \<and> timeout ?f < last (0 # map snd used) \<longrightarrow>
          get_select (\<lambda>x. Inr x) ?f [(7, Name ''tick'')] (?used @ ?rest)
            = Some (Inl TimeoutException, ?f, [(7, Name ''tick'')], rest)"
    by blast
  then have "get_select (\<lambda>x. Inr x) ?f [(7, Name ''tick'')] (?used @ ?rest)
            = Some (Inl TimeoutException, ?f, [(7, Name ''tick'')], ?rest)"
    using h3 by blast
  then show ?thesis by (simp add: get_all_def)
qed

text \<open>
  The last clause of claim C1 as stated fails: with \<open>timeout = 1\<close>, a reading of exactly
  \<open>1\<close> on an empty buffer is not a failure. The call sleeps again (the first run below
  is still waiting when its single tick is consumed), and when a message then arrives it
  returns it.
\<close>

theorem timeout_boundary_counterexample:
  "get_all \<lparr> self_id = 7, messages = [], timeout = 1, minwait = 1 / 2, sleeptime = 1 / 2,
             autoclose = True, filter' = (\<lambda>m. True), name' = None \<rparr>
     [(7, Name ''tick'')] [([], 1)] = None
   \<and> get_all \<lparr> self_id = 7, messages = [], timeout = 1, minwait = 1 / 2, sleeptime = 1 / 2,
             autoclose = True, filter' = (\<lambda>m. True), name' = None \<rparr>
     [(7, Name ''tick'')] [([], 1), ([''A''], 3 / 2)]
     = Some (Inr [''A''],
         \<lparr> self_id = 7, messages = [''A''], timeout = 1, minwait = 1 / 2, sleeptime = 1 / 2,
           autoclose = True, filter' = (\<lambda>m. True), name' = None \<rparr>,
         [], [])"
  by (auto simp add: get_all_def get_select_def wait_loop.simps notify_def close_def unregisterAll_def)

subsection \<open>What the getters return\<close>

text \<open>
  Claim C2. When \<^verbatim>\<open>get_all\<close> returns, it returns a non-empty list: the buffer it started
  with, followed by the messages that \<^verbatim>\<open>notify\<close> was called with during the ticks it
  consumed and that the filter accepted, in the order of the calls. \<^verbatim>\<open>get_first\<close> and
  \<^verbatim>\<open>get_last\<close> behave as \<^verbatim>\<open>get_all\<close> in every respect (waiting, raising, closing, ticks
  consumed) but return the first, respectively the last, element of that list. The
  buffer before the call is itself the accepted subsequence of the calls of \<^verbatim>\<open>notify\<close>
  made so far, and a future fresh from the factory starts with an empty buffer and the
  filter the factory was given.
\<close>

theorem getters_return_accepted_messages_in_order:
  "(get_all f con env = Some (Inr v, f', con', rest) \<longrightarrow>
      v \<noteq> [] \<and> (\<exists>used. env = used @ rest
        \<and> v = messages f @ filter (filter' f) (concat (map fst used))))
   \<and> get_first f con env =
       (case get_all f con env of
          None \<Rightarrow> None
        | Some (Inl e, s) \<Rightarrow> Some (Inl e, s)
        | Some (Inr xs, s) \<Rightarrow> Some (Inr (hd xs), s))
   \<and> get_last f con env =
       (case get_all f con env of
          None \<Rightarrow> None
        | Some (Inl e, s) \<Rightarrow> Some (Inl e, s)
        | Some (Inr xs, s) \<Rightarrow> Some (Inr (last xs), s))
   \<and> messages (foldl notify f ms) = messages f @ filter (filter' f) ms
   \<and> (create_filtered addr msgTypes flt req args kw con = (Inr (g :: 'g future), con2) \<longrightarrow>
        messages g = [] \<and> filter' g = (case flt of None \<Rightarrow> (\<lambda>msg. True) | Some p \<Rightarrow> p))"
proof (intro conjI impI)
  assume g: "get_all f con env = Some (Inr v, f', con', rest)"
  then have "get_select (\<lambda>x. Inr x) f con env = Some (Inr v, f', con', rest)"
    by (simp add: get_all_def)
  from get_select_result [OF this] obtain used where u: "env = used @ rest"
    "f' = f\<lparr>messages := messages f @ filter (filter' f) (concat (map fst used))\<rparr>"
    "Inr v = (Inr (messages f') :: exn + 'a list)" "messages f' \<noteq> []"
    by auto
  from u(3,4) show "v \<noteq> []" by simp
  from u(1,2,3) show "\<exists>used. env = used @ rest
        \<and> v = messages f @ filter (filter' f) (concat (map fst used))"
    by auto
next
  have ne: "\<And>xs s. get_all f con env = Some (Inr xs, s) \<Longrightarrow> xs \<noteq> []"
  proof -
    fix xs s assume "get_all f con env = Some (Inr xs, s)"
    then have "get_select (\<lambda>x. Inr x) f con env = Some (Inr xs, fst s, fst (snd s), snd (snd s))"
      by (simp add: get_all_def)
    from get_select_result [OF this] show "xs \<noteq> []" by auto
  qed
  show "get_first f con env =
       (case get_all f con env of
          None \<Rightarrow> None
        | Some (Inl e, s) \<Rightarrow> Some (Inl e, s)
        | Some (Inr xs, s) \<Rightarrow> Some (Inr (hd xs), s))"
    unfolding get_first_select
    by (subst get_select_change_selection)
       (auto simp: get_all_def [symmetric] item_first dest: ne split: option.splits sum.splits)
  show "get_last f con env =
       (case get_all f con env of
          None \<Rightarrow> None
        | Some (Inl e, s) \<Rightarrow> Some (Inl e, s)
        | Some (Inr xs, s) \<Rightarrow> Some (Inr (last xs), s))"
    unfolding get_last_select
    by (subst get_select_change_selection)
       (auto simp: get_all_def [symmetric] item_last dest: ne split: option.splits sum.splits)
next
  show "messages (foldl notify f ms) = messages f @ filter (filter' f) ms"
    by (simp add: foldl_notify)
next
  assume c: "create_filtered addr msgTypes flt req args kw con = (Inr g, con2)"
  then obtain f0 :: "'g future" where k: "Future_kw addr kw = Inr f0"
    by (cases "Future_kw addr kw :: exn + 'g future") (auto simp: create_filtered_def)
  from c have r: "messages g = [] \<and> filter' g = (case flt of None \<Rightarrow> (\<lambda>msg. True) | Some p \<Rightarrow> p)"
    using future_created [OF k]
    by (auto simp: create_filtered_result [OF k] split: prod.splits sum.splits)
  from r show "messages g = []" by simp
  from r show "filter' g = (case flt of None \<Rightarrow> (\<lambda>msg. True) | Some p \<Rightarrow> p)" by simp
qed

theorem getters_return_accepted_messages_in_order_witness:
  "get_all \<lparr> self_id = 7, messages = [], timeout = 1, minwait = 1 / 5, sleeptime = 1 / 20,
             autoclose = True, filter' = (\<lambda>m. m \<noteq> ''Y''), name' = None \<rparr>
     [(7, Name ''tick'')]
     [([], 1 / 20), ([''A''], 1 / 10), ([''Y'', ''B''], 3 / 20), ([], 1 / 5), ([''C''], 1 / 4)]
   = Some (Inr [''A'', ''B''],
       \<lparr> self_id = 7, messages = [''A'', ''B''], timeout = 1, minwait = 1 / 5,
         sleeptime = 1 / 20, autoclose = True, filter' = (\<lambda>m. m \<noteq> ''Y''), name' = None \<rparr>,
       [], [([''C''], 1 / 4)])
   \<and> get_first \<lparr> self_id = 7, messages = [], timeout = 1, minwait = 1 / 5, sleeptime = 1 / 20,
             autoclose = True, filter' = (\<lambda>m. m \<noteq> ''Y''), name' = None \<rparr>
     [(7, Name ''tick'')]
     [([], 1 / 20), ([''A''], 1 / 10), ([''Y'', ''B''], 3 / 20), ([], 1 / 5), ([''C''], 1 / 4)]
   = Some (Inr ''A'',
       \<lparr> self_id = 7, messages = [''A'', ''B''], timeout = 1, minwait = 1 / 5,
         sleeptime = 1 / 20, autoclose = True, filter' = (\<lambda>m. m \<noteq> ''Y''), name' = None \<rparr>,
       [], [([''C''], 1 / 4)])
   \<and> get_last \<lparr> self_id = 7, messages = [], timeout = 1, minwait = 1 / 5, sleeptime = 1 / 20,
             autoclose = True, filter' = (\<lambda>m. m \<noteq> ''Y''), name' = None \<rparr>
     [(7, Name ''tick'')]
     [([], 1 / 20), ([''A''], 1 / 10), ([''Y'', ''B''], 3 / 20), ([], 1 / 5), ([''C''], 1 / 4)]
   = Some (Inr ''B'',
       \<lparr> self_id = 7, messages = [''A'', ''B''], timeout = 1, minwait = 1 / 5,
         sleeptime = 1 / 20, autoclose = True, filter' = (\<lambda>m. m \<noteq> ''Y''), name' = None \<rparr>,
       [], [([''C''], 1 / 4)])"
proof -
  let ?f = "\<lparr> self_id = 7, messages = [], timeout = 1, minwait = 1 / 5, sleeptime = 1 / 20,
             autoclose = True, filter' = (\<lambda>m. m \<noteq> ''Y''), name' = None \<rparr> :: string future"
  let ?env = "[([], 1 / 20), ([''A''], 1 / 10), ([''Y'', ''B''], 3 / 20), ([], 1 / 5),
               ([''C''], 1 / 4)] :: string tick list"
  have ga: "get_all ?f [(7, Name ''tick'')] ?env
    = Some (Inr [''A'', ''B''], ?f\<lparr>messages := [''A'', ''B'']\<rparr>, [], [([''C''], 1 / 4)])"
    by (auto simp add: get_all_def get_select_def wait_loop.simps notify_def close_def
          unregisterAll_def)
  from getters_return_accepted_messages_in_order
         [where f = ?f and con = "[(7, Name ''tick'')]" and env = ?env]
  have "get_first ?f [(7, Name ''tick'')] ?env =
       (case get_all ?f [(7, Name ''tick'')] ?env of
          None \<Rightarrow> None
        | Some (Inl e, s) \<Rightarrow> Some (Inl e, s)
        | Some (Inr xs, s) \<Rightarrow> Some (Inr (hd xs), s))"
    and "get_last ?f [(7, Name ''tick'')] ?env =
       (case get_all ?f [(7, Name ''tick'')] ?env of
          None \<Rightarrow> None
        | Some (Inl e, s) \<Rightarrow> Some (Inl e, s)
        | Some (Inr xs, s) \<Rightarrow> Some (Inr (last xs), s))"
    by blast+
  with ga show ?thesis by simp
qed

subsection \<open>The settle window\<close>

text \<open>
  Claim C3. When a getter returns a value, the clock reading it last took (\<open>0\<close> if it
  never slept) is at least \<open>minwait\<close>, whatever arrived before, and the buffer is not
  empty. At a round of the loop where the buffer is non-empty and the reading is at least
  \<open>minwait\<close>, the loop ends with success and consumes no further tick. Put together: if
  the ticks \<open>used\<close> lead to the first round at which the buffer is non-empty and
  \<open>minwait\<close> has elapsed, no earlier round having found the clock beyond \<open>timeout\<close>,
  the getter returns the buffer of that round and leaves the later ticks alone.
\<close>

theorem settle_window:
  "(get_select sel f con env = Some (Inr v, f', con', rest) \<longrightarrow>
      (\<exists>used. env = used @ rest \<and> messages f' \<noteq> []
         \<and> minwait f \<le> last (0 # map snd used)))
   \<and> (messages f \<noteq> [] \<and> minwait f \<le> el \<longrightarrow>
        wait_loop f el env = Some (Inr (), f, el, env))
   \<and> ((\<forall>n<length used.
          (messages f @ filter (filter' f) (concat (map fst (take n used))) = []
             \<or> last (0 # map snd (take n used)) < minwait f)
          \<and> last (0 # map snd (take n used)) \<le> timeout f)
        \<and> messages f @ filter (filter' f) (concat (map fst used)) \<noteq> []
        \<and> minwait f \<le> last (0 # map snd used) \<longrightarrow>
        get_select sel f con (used @ later) =
          Some (sel (messages f @ filter (filter' f) (concat (map fst used))),
                f\<lparr>messages := messages f @ filter (filter' f) (concat (map fst used))\<rparr>,
                if autoclose f then unregisterAll (self_id f) con else con,
                later))"
proof (intro conjI impI)
  assume g: "get_select sel f con env = Some (Inr v, f', con', rest)"
  from get_select_result [OF g] obtain used el where u: "env = used @ rest"
    "el = last (0 # map snd used)"
    "Inr v = Inl TimeoutException \<or> messages f' \<noteq> [] \<and> minwait f \<le> el"
    by blast
  from u(3) have "messages f' \<noteq> [] \<and> minwait f \<le> el" by simp
  with u(1,2)
  show "\<exists>used. env = used @ rest \<and> messages f' \<noteq> [] \<and> minwait f \<le> last (0 # map snd used)"
    by blast
next
  assume "messages f \<noteq> [] \<and> minwait f \<le> el"
  then show "wait_loop f el env = Some (Inr (), f, el, env)"
    by (simp add: wait_loop_exit)
next
  assume a: "(\<forall>n<length used.
          (messages f @ filter (filter' f) (concat (map fst (take n used))) = []
             \<or> last (0 # map snd (take n used)) < minwait f)
          \<and> last (0 # map snd (take n used)) \<le> timeout f)
        \<and> messages f @ filter (filter' f) (concat (map fst used)) \<noteq> []
        \<and> minwait f \<le> last (0 # map snd used)"
  from a have a1: "\<forall>n<length used.
          (messages f @ filter (filter' f) (concat (map fst (take n used))) = []
             \<or> last (0 # map snd (take n used)) < minwait f)
          \<and> last (0 # map snd (take n used)) \<le> timeout f"
    by (rule conjunct1)
  from a have a2: "messages f @ filter (filter' f) (concat (map fst used)) \<noteq> []"
    by (rule conjunct2 [THEN conjunct1])
  from a have a3: "minwait f \<le> last (0 # map snd used)"
    by (rule conjunct2 [THEN conjunct2])
  from a1 a2 a3 have w: "wait_loop f 0 (used @ later) =
     Some (Inr (), f\<lparr>messages := messages f @ filter (filter' f) (concat (map fst used))\<rparr>,
           last (0 # map snd used), later)"
    by (rule wait_loop_first_settled)
  show "get_select sel f con (used @ later) =
          Some (sel (messages f @ filter (filter' f) (concat (map fst used))),
                f\<lparr>messages := messages f @ filter (filter' f) (concat (map fst used))\<rparr>,
                if autoclose f then unregisterAll (self_id f) con else con,
                later)"
    unfolding get_select_success [OF w] by simp
qed

theorem settle_window_witness:
  "get_all \<lparr> self_id = 7, messages = [], timeout = 1, minwait = 1 / 5, sleeptime = 1 / 20,
             autoclose = False, filter' = (\<lambda>m. True), name' = None \<rparr>
     [(7, Name ''tick'')]
     [([''A''], 1 / 20), ([], 1 / 10), ([''B''], 3 / 20), ([], 1 / 5), ([''C''], 1 / 4)]
   = Some (Inr [''A'', ''B''],
       \<lparr> self_id = 7, messages = [''A'', ''B''], timeout = 1, minwait = 1 / 5,
         sleeptime = 1 / 20, autoclose = False, filter' = (\<lambda>m. True), name' = None \<rparr>,
       [(7, Name ''tick'')], [([''C''], 1 / 4)])"
proof -
  let ?f = "\<lparr> self_id = 7, messages = [], timeout = 1, minwait = 1 / 5, sleeptime = 1 / 20,
             autoclose = False, filter' = (\<lambda>m. True), name' = None \<rparr> :: string future"
  let ?used = "[([''A''], 1 / 20), ([], 1 / 10), ([''B''], 3 / 20), ([], 1 / 5)]
                 :: string tick list"
  let ?later = "[([''C''], 1 / 4)] :: string tick list"
  have h: "(\<forall>n<length ?used.
          (messages ?f @ filter (filter' ?f) (concat (map fst (take n ?used))) = []
             \<or> last (0 # map snd (take n ?used)) < minwait ?f)
          \<and> last (0 # map snd (take n ?used)) \<le> timeout ?f)
        \<and> messages ?f @ filter (filter' ?f) (concat (map fst ?used)) \<noteq> []
        \<and> minwait ?f \<le> last (0 # map snd ?used)"
    by (simp add: All_less_Suc take_Suc_Cons)
  from settle_window [where f = ?f and used = ?used and later = ?later
          and sel = "\<lambda>x. Inr x" and con = "[(7, Name ''tick'')]"] h
  have "get_select (\<lambda>x. Inr x) ?f [(7, Name ''tick'')] (?used @ ?later) =
          Some (Inr (messages ?f @ filter (filter' ?f) (concat (map fst ?used))),
                ?f\<lparr>messages := messages ?f @ filter (filter' ?f) (concat (map fst ?used))\<rparr>,
                if autoclose ?f then unregisterAll (self_id ?f) [(7, Name ''tick'')]
                else [(7, Name ''tick'')],
                ?later)"
    by blast
  then show ?thesis by (simp add: get_all_def)
qed

subsection \<open>Closing after a getter\<close>

text \<open>
  Claim C4. When a getter (\<^verbatim>\<open>get_all\<close>, or \<^verbatim>\<open>get\<close> with either flag, which covers
  \<^verbatim>\<open>get_first\<close> and \<^verbatim>\<open>get_last\<close>) returns a value, the connection is the one \<^verbatim>\<open>close\<close>
  leaves if \<^verbatim>\<open>autoclose\<close> is set, and untouched otherwise. When it raises, the exception is
  \<open>TimeoutException\<close>, the connection is untouched, so the callback is still registered
  if it was, and the buffer is the one at the call extended by the accepted messages that
  arrived meanwhile: nothing buffered is lost, and the getter can be called again.
\<close>

theorem autoclose_only_on_success:
  "(get_all f con env = Some (Inr v, f', con', rest) \<longrightarrow>
      con' = (if autoclose f then snd (close f' con) else con))
   \<and> (get b f con env = Some (Inr w, f', con', rest) \<longrightarrow>
      con' = (if autoclose f then snd (close f' con) else con))
   \<and> (get_all f con env = Some (Inl e, f', con', rest) \<longrightarrow>
      e = TimeoutException \<and> con' = con
      \<and> (\<exists>used. env = used @ rest
           \<and> f' = f\<lparr>messages := messages f @ filter (filter' f) (concat (map fst used))\<rparr>))
   \<and> (get b f con env = Some (Inl e, f', con', rest) \<longrightarrow>
      e = TimeoutException \<and> con' = con
      \<and> (\<exists>used. env = used @ rest
           \<and> f' = f\<lparr>messages := messages f @ filter (filter' f) (concat (map fst used))\<rparr>))"
proof -
  have 1: "get_all f con env = Some (Inr v, f', con', rest) \<longrightarrow>
      con' = (if autoclose f then snd (close f' con) else con)"
    unfolding get_all_def by (rule impI) (rule get_select_closes)
  have 2: "get b f con env = Some (Inr w, f', con', rest) \<longrightarrow>
      con' = (if autoclose f then snd (close f' con) else con)"
    unfolding get_def by (rule impI) (rule get_select_closes)
  have 3: "get_all f con env = Some (Inl e, f', con', rest) \<longrightarrow>
      e = TimeoutException \<and> con' = con
      \<and> (\<exists>used. env = used @ rest
           \<and> f' = f\<lparr>messages := messages f @ filter (filter' f) (concat (map fst used))\<rparr>)"
    unfolding get_all_def by (rule impI) (erule get_select_raises, simp)
  have 4: "get b f con env = Some (Inl e, f', con', rest) \<longrightarrow>
      e = TimeoutException \<and> con' = con
      \<and> (\<exists>used. env = used @ rest
           \<and> f' = f\<lparr>messages := messages f @ filter (filter' f) (concat (map fst used))\<rparr>)"
    unfolding get_def by (rule impI) (erule get_select_raises, rule item_selects)
  from 1 2 3 4 show ?thesis by (intro conjI)
qed

theorem autoclose_only_on_success_witness:
  "get_all \<lparr> self_id = 7, messages = [], timeout = 3 / 10, minwait = 1 / 10, sleeptime = 1 / 5,
             autoclose = True, filter' = (\<lambda>m. True), name' = None \<rparr>
     [(7, Name ''tick''), (8, Name ''tick'')] [([], 1 / 5), ([], 2 / 5), ([''A''], 1 / 5)]
   = Some (Inl TimeoutException,
       \<lparr> self_id = 7, messages = [], timeout = 3 / 10, minwait = 1 / 10, sleeptime = 1 / 5,
         autoclose = True, filter' = (\<lambda>m. True), name' = None \<rparr>,
       [(7, Name ''tick''), (8, Name ''tick'')], [([''A''], 1 / 5)])
   \<and> get_all \<lparr> self_id = 7, messages = [], timeout = 3 / 10, minwait = 1 / 10, sleeptime = 1 / 5,
             autoclose = True, filter' = (\<lambda>m. True), name' = None \<rparr>
     [(7, Name ''tick''), (8, Name ''tick'')] [([''A''], 1 / 5)]
   = Some (Inr [''A''],
       \<lparr> self_id = 7, messages = [''A''], timeout = 3 / 10, minwait = 1 / 10, sleeptime = 1 / 5,
         autoclose = True, filter' = (\<lambda>m. True), name' = None \<rparr>,
       [(8, Name ''tick'')], [])
   \<and> snd (close \<lparr> self_id = 7, messages = [''A''], timeout = 3 / 10, minwait = 1 / 10,
         sleeptime = 1 / 5, autoclose = True, filter' = (\<lambda>m. True), name' = None \<rparr>
         [(7, Name ''tick''), (8, Name ''tick'')]) = [(8 :: nat, Name ''tick'')]"
proof -
  let ?f = "\<lparr> self_id = 7, messages = [], timeout = 3 / 10, minwait = 1 / 10, sleeptime = 1 / 5,
             autoclose = True, filter' = (\<lambda>m. True), name' = None \<rparr> :: string future"
  let ?con = "[(7, Name ''tick''), (8, Name ''tick'')] :: conn"
  have t: "get_all ?f ?con [([], 1 / 5), ([], 2 / 5), ([''A''], 1 / 5)]
    = Some (Inl TimeoutException, ?f, ?con, [([''A''], 1 / 5)])"
    by (simp add: get_all_def get_select_def wait_loop.simps)
  have s: "get_all ?f ?con [([''A''], 1 / 5)]
    = Some (Inr [''A''], ?f\<lparr>messages := [''A'']\<rparr>, [(8, Name ''tick'')], [])"
    by (auto simp add: get_all_def get_select_def wait_loop.simps notify_def close_def
          unregisterAll_def)
  from autoclose_only_on_success
         [where f = ?f and con = ?con and env = "[([''A''], 1 / 5)]" and v = "[''A'']"
            and f' = "?f\<lparr>messages := [''A'']\<rparr>" and con' = "[(8, Name ''tick'')]" and rest = "[]"] s
  have "[(8 :: nat, Name ''tick'')] = (if autoclose ?f then snd (close (?f\<lparr>messages := [''A'']\<rparr>) ?con) else ?con)"
    by blast
  then have "snd (close (?f\<lparr>messages := [''A'']\<rparr>) ?con) = [(8 :: nat, Name ''tick'')]"
    by simp
  with t s show ?thesis by simp
qed

subsection \<open>Construction\<close>

text \<open>
  Claim C5. When \<^verbatim>\<open>minwait\<close> is not below \<^verbatim>\<open>timeout\<close>, \<^verbatim>\<open>Future.__init__\<close> raises (the
  \<open>AssertionError\<close> of its \<^verbatim>\<open>assert\<close>; the spec calls it a configuration error) and there is
  no future. In the factory, with the keyword arguments and the defaults giving such a
  pair, \<^verbatim>\<open>create_filtered\<close> and \<^verbatim>\<open>create\<close> raise the same error and the connection is as it
  was, whatever the request function would have done: nothing was registered and the
  request was not issued.
\<close>

theorem construction_fails_when_minwait_not_below_timeout:
  "(timeout_arg \<le> minwait_arg \<longrightarrow>
      (Future_init addr timeout_arg minwait_arg sleeptime_arg autoclose_arg
         :: exn + 'm future) = Inl AssertionError)
   \<and> ((case kw_timeout kw of None \<Rightarrow> 5 | Some v \<Rightarrow> v)
        \<le> (case kw_minwait kw of None \<Rightarrow> 1 / 10 | Some v \<Rightarrow> v) \<longrightarrow>
      (create_filtered addr msgTypes flt req args kw con :: (exn + 'm future) \<times> conn)
         = (Inl AssertionError, con)
      \<and> (create addr msgTypes req args kw con :: (exn + 'm future) \<times> conn)
         = (Inl AssertionError, con))"
proof (intro conjI impI)
  assume "timeout_arg \<le> minwait_arg"
  then show "(Future_init addr timeout_arg minwait_arg sleeptime_arg autoclose_arg
         :: exn + 'm future) = Inl AssertionError"
    by (simp add: Future_init_def)
next
  assume a: "(case kw_timeout kw of None \<Rightarrow> 5 | Some v \<Rightarrow> v)
        \<le> (case kw_minwait kw of None \<Rightarrow> 1 / 10 | Some v \<Rightarrow> v)"
  then have k: "(Future_kw addr kw :: exn + 'm future) = Inl AssertionError"
    by (simp add: Future_kw_def Future_init_def)
  then show c: "(create_filtered addr msgTypes flt req args kw con :: (exn + 'm future) \<times> conn)
         = (Inl AssertionError, con)"
    by (simp add: create_filtered_def)
  from k show "(create addr msgTypes req args kw con :: (exn + 'm future) \<times> conn)
         = (Inl AssertionError, con)"
    by (simp add: create_def create_filtered_def)
qed

theorem construction_fails_when_minwait_not_below_timeout_witness:
  "(Future_init 7 (1 / 10) (1 / 10) (1 / 10) True :: exn + string future) = Inl AssertionError
   \<and> (create_filtered 7 (Seq [Name ''tickPrice'', Name ''tickSize'']) None
        (\<lambda>args con. (Inr (), con @ [(0, Name ''sent'')])) [1 :: nat]
        \<lparr> kw_timeout = Some (1 / 20), kw_minwait = None, kw_sleeptime = None,
          kw_autoclose = None \<rparr> [(3, Name ''error'')] :: (exn + string future) \<times> conn)
      = (Inl AssertionError, [(3, Name ''error'')])"
proof -
  have h1: "(1 / 10 :: real) \<le> 1 / 10" by simp
  let ?kw = "\<lparr> kw_timeout = Some (1 / 20), kw_minwait = None, kw_sleeptime = None,
          kw_autoclose = None \<rparr>"
  have h2: "(case kw_timeout ?kw of None \<Rightarrow> 5 | Some v \<Rightarrow> v)
        \<le> (case kw_minwait ?kw of None \<Rightarrow> 1 / 10 | Some v \<Rightarrow> v)"
    by simp
  from construction_fails_when_minwait_not_below_timeout
         [where timeout_arg = "1 / 10" and minwait_arg = "1 / 10" and kw = ?kw
            and 'm = string and 'a = nat] h1 h2
  show ?thesis by blast
qed

subsection \<open>Closing\<close>

text \<open>
  Claim C6. \<^verbatim>\<open>close\<close> leaves the future as it is, buffer included. In the connection no
  association of the future's callback remains, under any identifier, and the
  associations of every other callback are as before. A second \<^verbatim>\<open>close\<close> changes nothing
  more and, like the first, raises nothing (the model of \<^verbatim>\<open>close\<close> has no error result,
  \<^verbatim>\<open>unregisterAll\<close> being idempotent by the spec). A getter called after \<^verbatim>\<open>close\<close> waits,
  returns or raises exactly as it would have without the \<^verbatim>\<open>close\<close>, with the same value and
  the same buffer.
\<close>

theorem close_deregisters_and_nothing_else:
  "fst (close f con) = f
   \<and> (\<forall>t. (self_id f, t) \<notin> set (snd (close f con)))
   \<and> (\<forall>cb t. cb \<noteq> self_id f \<longrightarrow>
          ((cb, t) \<in> set (snd (close f con))) = ((cb, t) \<in> set con))
   \<and> close (fst (close f con)) (snd (close f con)) = close f con
   \<and> map_option (\<lambda>(r, g, c, rest). (r, g, rest))
        (get_select sel (fst (close f con)) (snd (close f con)) env)
      = map_option (\<lambda>(r, g, c, rest). (r, g, rest)) (get_select sel f con env)"
proof (intro conjI allI impI)
  show "fst (close f con) = f" by (simp add: close_def)
  show "(self_id f, t) \<notin> set (snd (close f con))" for t
    by (simp add: close_def unregisterAll_member)
  show "((cb, t) \<in> set (snd (close f con))) = ((cb, t) \<in> set con)"
    if "cb \<noteq> self_id f" for cb t
    using that by (simp add: close_def unregisterAll_member)
  show "close (fst (close f con)) (snd (close f con)) = close f con"
    by (simp add: close_def unregisterAll_twice)
  show "map_option (\<lambda>(r, g, c, rest). (r, g, rest))
        (get_select sel (fst (close f con)) (snd (close f con)) env)
      = map_option (\<lambda>(r, g, c, rest). (r, g, rest)) (get_select sel f con env)"
    unfolding close_def fst_conv by (rule get_select_connection)
qed

theorem close_deregisters_and_nothing_else_witness:
  "close \<lparr> self_id = 7, messages = [''A''], timeout = 1, minwait = 1 / 10, sleeptime = 1 / 10,
           autoclose = False, filter' = (\<lambda>m. True), name' = None \<rparr>
     [(7, Name ''tickPrice''), (7, Name ''tickSize''), (8, Name ''tickPrice'')]
   = (\<lparr> self_id = 7, messages = [''A''], timeout = 1, minwait = 1 / 10, sleeptime = 1 / 10,
        autoclose = False, filter' = (\<lambda>m. True), name' = None \<rparr>, [(8, Name ''tickPrice'')])
   \<and> close \<lparr> self_id = 7, messages = [''A''], timeout = 1, minwait = 1 / 10, sleeptime = 1 / 10,
           autoclose = False, filter' = (\<lambda>m. True), name' = None \<rparr> [(8, Name ''tickPrice'')]
   = (\<lparr> self_id = 7, messages = [''A''], timeout = 1, minwait = 1 / 10, sleeptime = 1 / 10,
        autoclose = False, filter' = (\<lambda>m. True), name' = None \<rparr>, [(8, Name ''tickPrice'')])
   \<and> get_all \<lparr> self_id = 7, messages = [''A''], timeout = 1, minwait = 1 / 10,
           sleeptime = 1 / 10, autoclose = False, filter' = (\<lambda>m. True), name' = None \<rparr>
         [(8, Name ''tickPrice'')] [([], 1 / 10)]
   = Some (Inr [''A''],
        \<lparr> self_id = 7, messages = [''A''], timeout = 1, minwait = 1 / 10, sleeptime = 1 / 10,
          autoclose = False, filter' = (\<lambda>m. True), name' = None \<rparr>,
        [(8, Name ''tickPrice'')], [])"
proof -
  let ?f = "\<lparr> self_id = 7, messages = [''A''], timeout = 1, minwait = 1 / 10, sleeptime = 1 / 10,
           autoclose = False, filter' = (\<lambda>m. True), name' = None \<rparr> :: string future"
  let ?con = "[(7, Name ''tickPrice''), (7, Name ''tickSize''), (8, Name ''tickPrice'')] :: conn"
  have c: "close ?f ?con = (?f, [(8, Name ''tickPrice'')])"
    by (auto simp: close_def unregisterAll_def)
  from close_deregisters_and_nothing_else [where f = ?f and con = ?con]
  have "close (fst (close ?f ?con)) (snd (close ?f ?con)) = close ?f ?con"
    by blast
  with c have c2: "close ?f [(8, Name ''tickPrice'')] = (?f, [(8, Name ''tickPrice'')])"
    by simp
  have g: "get_all ?f [(8, Name ''tickPrice'')] [([], 1 / 10)]
    = Some (Inr [''A''], ?f, [(8, Name ''tickPrice'')], [])"
    by (simp add: get_all_def get_select_def wait_loop.simps)
  from c c2 g show ?thesis by simp
qed

subsection \<open>The factory\<close>




text \<open>
  Claim C8. If the request function raises, \<^verbatim>\<open>create_filtered\<close> and \<^verbatim>\<open>create\<close> raise the same
  exception and leave the connection exactly as the request function left it: the
  factory makes no call after the request. The registrations, for the identifiers \<open>ts\<close>
  that the loop over \<^verbatim>\<open>msgTypes\<close> runs through, were all made before the request ran, on
  top of what the connection held.
\<close>

theorem request_error_propagates:
  "(Future_kw addr kw = Inr (f0 :: 'm future) \<and> loop_items msgTypes = Inr ts
     \<and> req args (foldl (\<lambda>c t. register addr t c) con ts) = (Inl e, con2) \<longrightarrow>
     (create_filtered addr msgTypes flt req args kw con :: (exn + 'm future) \<times> conn)
        = (Inl e, con2)
     \<and> (create addr msgTypes req args kw con :: (exn + 'm future) \<times> conn) = (Inl e, con2))
   \<and> (\<forall>t \<in> set ts. (addr, t) \<in> set (foldl (\<lambda>c t. register addr t c) con ts))
   \<and> set con \<subseteq> set (foldl (\<lambda>c t. register addr t c) con ts)"
proof (intro conjI impI)
  assume a: "Future_kw addr kw = Inr f0 \<and> loop_items msgTypes = Inr ts
     \<and> req args (foldl (\<lambda>c t. register addr t c) con ts) = (Inl e, con2)"
  then have k: "Future_kw addr kw = Inr f0" and l: "loop_items msgTypes = Inr ts"
    and r: "req args (foldl (\<lambda>c t. register addr t c) con ts) = (Inl e, con2)"
    by simp_all
  show "(create_filtered addr msgTypes flt req args kw con :: (exn + 'm future) \<times> conn)
        = (Inl e, con2)"
    unfolding create_filtered_calls [OF k] l sum.case r by simp
  show "(create addr msgTypes req args kw con :: (exn + 'm future) \<times> conn) = (Inl e, con2)"
    unfolding create_def create_filtered_calls [OF k] l sum.case r by simp
next
  show "\<forall>t \<in> set ts. (addr, t) \<in> set (foldl (\<lambda>c t. register addr t c) con ts)"
    by (simp add: foldl_register)
  show "set con \<subseteq> set (foldl (\<lambda>c t. register addr t c) con ts)"
    by (simp add: foldl_register)
qed

theorem request_error_propagates_witness:
  "(create 7 (Seq [Name ''tickPrice'', Name ''tickSize''])
      (\<lambda>args con. (Inl (Raised ''not connected''), con)) [1 :: nat]
      \<lparr> kw_timeout = None, kw_minwait = None, kw_sleeptime = None, kw_autoclose = None \<rparr>
      [(3, Name ''error'')] :: (exn + string future) \<times> conn)
   = (Inl (Raised ''not connected''),
      [(3, Name ''error''), (7, Name ''tickPrice''), (7, Name ''tickSize'')])"
proof -
  let ?kw = "\<lparr> kw_timeout = None, kw_minwait = None, kw_sleeptime = None,
               kw_autoclose = None \<rparr>"
  let ?f0 = "\<lparr> self_id = 7, messages = [] :: string list, timeout = 5, minwait = 1 / 10,
            sleeptime = 1 / 10, autoclose = True, filter' = (\<lambda>m. True), name' = None \<rparr>"
  let ?req = "\<lambda>(args :: nat list) (con :: conn). (Inl (Raised ''not connected'') :: exn + unit, con)"
  let ?ts = "[Name ''tickPrice'', Name ''tickSize'']"
  let ?con2 = "[(3, Name ''error''), (7, Name ''tickPrice''), (7, Name ''tickSize'')]"
  have k: "Future_kw 7 ?kw = Inr ?f0"
    by (simp add: Future_kw_def Future_init_def)
  have l: "loop_items (Seq ?ts) = Inr ?ts" by simp
  have r: "?req [1] (foldl (\<lambda>c t. register 7 t c) [(3, Name ''error'')] ?ts)
           = (Inl (Raised ''not connected''), ?con2)"
    by (simp add: register_def)
  from request_error_propagates
     [where addr = 7 and kw = ?kw and ?f0.0 = ?f0 and msgTypes = "Seq ?ts" and ts = ?ts
        and args = "[1 :: nat]" and con = "[(3, Name ''error'')]" and req = ?req
        and e = "Raised ''not connected''" and ?con2.0 = ?con2] k l r
  show ?thesis by blast
qed

subsection \<open>No closed flag\<close>

text \<open>
  Claim C10. \<^verbatim>\<open>close\<close> returns the future unchanged, so nothing in the future records that
  it was closed, and \<^verbatim>\<open>notify\<close> after \<^verbatim>\<open>close\<close> does what \<^verbatim>\<open>notify\<close> does without it: a message
  the filter accepts is appended to the buffer, any other is dropped.
\<close>

theorem notify_ignores_close:
  "notify (fst (close f con)) msg = notify f msg
   \<and> (filter' f msg \<longrightarrow>
        messages (notify (fst (close f con)) msg) = messages f @ [msg])
   \<and> (\<not> filter' f msg \<longrightarrow> notify (fst (close f con)) msg = f)
   \<and> fst (close f con) = f"
  by (simp add: close_def notify_def)

theorem notify_ignores_close_witness:
  "messages (notify (fst (close
      \<lparr> self_id = 7, messages = [''A''], timeout = 1, minwait = 1 / 10, sleeptime = 1 / 10,
        autoclose = True, filter' = (\<lambda>m. m \<noteq> ''Y''), name' = None \<rparr>
      [(7, Name ''tickPrice'')])) ''C'') = [''A'', ''C'']"
proof -
  let ?f = "\<lparr> self_id = 7, messages = [''A''], timeout = 1, minwait = 1 / 10, sleeptime = 1 / 10,
        autoclose = True, filter' = (\<lambda>m. m \<noteq> ''Y''), name' = None \<rparr> :: string future"
  have h: "filter' ?f ''C''" by simp
  from notify_ignores_close [where f = ?f and con = "[(7, Name ''tickPrice'')]" and msg = "''C''"] h
  have "messages (notify (fst (close ?f [(7, Name ''tickPrice'')])) ''C'') = messages ?f @ [''C'']"
    by blast
  then show ?thesis by simp
qed

end
